theory Spec2Isabelle
  imports Main "HOL-Library.FSet"
begin

section \<open>JavaScript strings\<close>

text \<open>
  A JavaScript string is a sequence of UTF-16 code units; a code unit is modelled as a
  natural number.  \<open>ustr\<close> reads an ASCII literal as such a sequence.
\<close>

type_synonym ustring = "nat list"

definition ustr :: "string \<Rightarrow> ustring" where
  "ustr cs = map of_char cs"

text \<open>
  The class \<^verbatim>\<open>\s\<close> of a JavaScript regular expression, which is also the set of code
  units that \<^verbatim>\<open>String.prototype.trim\<close> strips: TAB, LF, VT, FF, CR, SPACE, U+00A0,
  U+1680, U+2000..U+200A, U+2028, U+2029, U+202F, U+205F, U+3000 and U+FEFF.
\<close>

definition js_space :: "nat \<Rightarrow> bool" where
  "js_space c \<longleftrightarrow>
     (9 \<le> c \<and> c \<le> 13) \<or> c = 32 \<or> c = 160 \<or> c = 5760 \<or> (8192 \<le> c \<and> c \<le> 8202) \<or>
     c = 8232 \<or> c = 8233 \<or> c = 8239 \<or> c = 8287 \<or> c = 12288 \<or> c = 65279"

text \<open>The class \<^verbatim>\<open>[A-Za-z]\<close>.\<close>

definition ascii_letter :: "nat \<Rightarrow> bool" where
  "ascii_letter c \<longleftrightarrow> (65 \<le> c \<and> c \<le> 90) \<or> (97 \<le> c \<and> c \<le> 122)"

text \<open>\<^verbatim>\<open>.replace(/[^A-Za-z\s]/g, " ")\<close>\<close>

definition replace_non_letters :: "ustring \<Rightarrow> ustring" where
  "replace_non_letters s = map (\<lambda>c. if ascii_letter c \<or> js_space c then c else 32) s"

text \<open>\<^verbatim>\<open>.replace(/\s+/g, " ")\<close>: every maximal run of white space becomes one space.\<close>

function collapse_spaces :: "ustring \<Rightarrow> ustring" where
  "collapse_spaces [] = []"
| "collapse_spaces (c # cs) =
     (if js_space c then 32 # collapse_spaces (dropWhile js_space cs)
      else c # collapse_spaces cs)"
  by pat_completeness auto
termination
  by (relation "measure length") (auto simp: le_imp_less_Suc length_dropWhile_le)

text \<open>\<^verbatim>\<open>.trim()\<close>: white space is removed from both ends.\<close>

fun trim_end :: "ustring \<Rightarrow> ustring" where
  "trim_end [] = []"
| "trim_end (c # cs) = (if js_space c \<and> trim_end cs = [] then [] else c # trim_end cs)"

definition trim :: "ustring \<Rightarrow> ustring" where
  "trim s = trim_end (dropWhile js_space s)"

text \<open>
  \<^verbatim>\<open>.split(d)\<close> for a one-unit separator \<open>d\<close>: the result is never empty, the empty
  string splits into one empty piece.
\<close>

fun split_on :: "nat \<Rightarrow> ustring \<Rightarrow> ustring list" where
  "split_on d [] = [[]]"
| "split_on d (c # cs) =
     (if c = d then [] # split_on d cs
      else (case split_on d cs of [] \<Rightarrow> [[c]] | w # ws \<Rightarrow> (c # w) # ws))"

text \<open>\<^verbatim>\<open>.join(d)\<close>\<close>

fun join :: "ustring \<Rightarrow> ustring list \<Rightarrow> ustring" where
  "join d [] = []"
| "join d [w] = w"
| "join d (w # v # ws) = w @ d @ join d (v # ws)"

text \<open>
  \<^verbatim>\<open>.toLowerCase()\<close> on the code units that reach it in \<open>lettersOnlyFilename\<close>: ASCII
  letters and the hyphen (lemma \<open>stem_units\<close> below).  On these the Unicode case
  mapping is the ASCII one.
\<close>

definition toLowerCase :: "ustring \<Rightarrow> ustring" where
  "toLowerCase s = map (\<lambda>c. if 65 \<le> c \<and> c \<le> 90 then c + 32 else c) s"

section \<open>The filename helper\<close>

text \<open>
  \<^verbatim>\<open>
  function lettersOnlyFilename(prompt, existingNames) {
    const base = (prompt || "image")
      .normalize("NFKD")
      .replace(/[^A-Za-z\s]/g, " ")
      .replace(/\s+/g, " ")
      .trim()
      .split(" ")
      .slice(0, 8)
      .join("-")
      .toLowerCase();

    let name = base || "image";
    let attempt = name;
    while (existingNames.has(attempt + ".png")) attempt += "-copy";
    return attempt + ".png";
  }
  \<close>
  \<^verbatim>\<open>String.prototype.normalize("NFKD")\<close> is a function of the JavaScript runtime, driven
  by the Unicode decomposition tables; it is the parameter \<open>N\<close> of the model.  The only
  fact about it that is ever assumed is \<open>fixes_ascii\<close>: a string of ASCII code units is
  its own normal form.
\<close>

definition fixes_ascii :: "(ustring \<Rightarrow> ustring) \<Rightarrow> bool" where
  "fixes_ascii N \<longleftrightarrow> (\<forall>s. (\<forall>c \<in> set s. c < 128) \<longrightarrow> N s = s)"

definition png :: ustring where
  "png = ustr ''.png''"

definition copy_suffix :: ustring where
  "copy_suffix = ustr ''-copy''"

text \<open>The \<^verbatim>\<open>while\<close> loop; \<open>existingNames\<close> is a JavaScript \<^verbatim>\<open>Set\<close>, hence finite.\<close>

function copy_loop :: "ustring fset \<Rightarrow> ustring \<Rightarrow> ustring" where
  "copy_loop existingNames attempt =
     (if attempt @ png |\<in>| existingNames then copy_loop existingNames (attempt @ copy_suffix)
      else attempt)"
  by pat_completeness auto

definition longer_names :: "ustring fset \<Rightarrow> ustring \<Rightarrow> ustring fset" where
  "longer_names existingNames attempt =
     ffilter (\<lambda>x. length attempt + length png \<le> length x) existingNames"

lemma longer_names_decrease:
  assumes "attempt @ png |\<in>| existingNames"
  shows "fcard (longer_names existingNames (attempt @ copy_suffix))
           < fcard (longer_names existingNames attempt)"
proof (rule pfsubset_fcard_mono)
  have "attempt @ png |\<in>| longer_names existingNames attempt"
    using assms by (simp add: longer_names_def)
  moreover have "attempt @ png |\<notin>| longer_names existingNames (attempt @ copy_suffix)"
    by (simp add: longer_names_def copy_suffix_def ustr_def)
  moreover have "longer_names existingNames (attempt @ copy_suffix)
                   |\<subseteq>| longer_names existingNames attempt"
    by (auto simp: longer_names_def)
  ultimately show "longer_names existingNames (attempt @ copy_suffix)
                     |\<subset>| longer_names existingNames attempt"
    by blast
qed

termination copy_loop
  by (relation "measure (\<lambda>(existingNames, attempt). fcard (longer_names existingNames attempt))")
     (simp_all add: longer_names_decrease)

definition stem :: "(ustring \<Rightarrow> ustring) \<Rightarrow> ustring \<Rightarrow> ustring" where
  "stem N p =
     (let base = toLowerCase (join (ustr ''-'') (take 8 (split_on 32 (trim (collapse_spaces
                   (replace_non_letters (N (if p = [] then ustr ''image'' else p))))))))
      in if base = [] then ustr ''image'' else base)"

definition lettersOnlyFilename :: "(ustring \<Rightarrow> ustring) \<Rightarrow> ustring \<Rightarrow> ustring fset \<Rightarrow> ustring" where
  "lettersOnlyFilename N p existingNames = copy_loop existingNames (stem N p) @ png"

declare copy_loop.simps [simp del]

lemma copy_loop_taken:
  "attempt @ png |\<in>| existingNames \<Longrightarrow>
     copy_loop existingNames attempt = copy_loop existingNames (attempt @ copy_suffix)"
  by (subst copy_loop.simps) simp

lemma copy_loop_free:
  "attempt @ png |\<notin>| existingNames \<Longrightarrow> copy_loop existingNames attempt = attempt"
  by (subst copy_loop.simps) simp

section \<open>The filename contract of the specification\<close>

text \<open>
  The words of a text are its maximal runs of code units that are not white space, in
  order.  This is what "collapse runs of whitespace to single spaces; trim; split on
  spaces" of the specification produces, stated without the intermediate strings.
\<close>

fun words_of :: "ustring \<Rightarrow> ustring list" where
  "words_of [] = []"
| "words_of (c # cs) =
     (if js_space c then words_of cs
      else if cs = [] \<or> js_space (hd cs) then [c] # words_of cs
      else (case words_of cs of [] \<Rightarrow> [[c]] | w # ws \<Rightarrow> (c # w) # ws))"

text \<open>\<open>copies k\<close> is the suffix \<^verbatim>\<open>-copy\<close> repeated \<open>k\<close> times.\<close>

definition copies :: "nat \<Rightarrow> ustring" where
  "copies k = concat (replicate k copy_suffix)"

subsection \<open>The disambiguation loop\<close>

lemma copy_loop_form:
  "\<exists>k. copy_loop ex a = a @ copies k \<and> (\<forall>j<k. a @ copies j @ png |\<in>| ex) \<and> a @ copies k @ png |\<notin>| ex"
proof (induction ex a rule: copy_loop.induct)
  case (1 ex a)
  show ?case
  proof (cases "a @ png |\<in>| ex")
    case False
    then have "copy_loop ex a = a @ copies 0 \<and> (\<forall>j<0. a @ copies j @ png |\<in>| ex) \<and> a @ copies 0 @ png |\<notin>| ex"
      by (simp add: copy_loop_free copies_def)
    then show ?thesis by blast
  next
    case True
    from "1.IH" [OF True] obtain k where
      k: "copy_loop ex (a @ copy_suffix) = (a @ copy_suffix) @ copies k"
         "\<forall>j<k. (a @ copy_suffix) @ copies j @ png |\<in>| ex"
         "(a @ copy_suffix) @ copies k @ png |\<notin>| ex"
      by blast
    have "copy_loop ex a = a @ copies (Suc k)"
      using True k(1) by (simp add: copy_loop_taken copies_def)
    moreover have "\<forall>j<Suc k. a @ copies j @ png |\<in>| ex"
    proof (intro allI impI)
      fix j assume "j < Suc k"
      show "a @ copies j @ png |\<in>| ex"
      proof (cases j)
        case 0
        then show ?thesis using True by (simp add: copies_def)
      next
        case (Suc i)
        then have "i < k" using \<open>j < Suc k\<close> by simp
        then show ?thesis using k(2) Suc by (simp add: copies_def)
      qed
    qed
    moreover have "a @ copies (Suc k) @ png |\<notin>| ex"
      using k(3) by (simp add: copies_def)
    ultimately show ?thesis by blast
  qed
qed

subsection \<open>The regular-expression pipeline computes the words\<close>

lemma words_of_dropWhile: "words_of (dropWhile js_space s) = words_of s"
  by (induction s) auto

lemma words_of_Nil_iff: "words_of s = [] \<longleftrightarrow> (\<forall>c \<in> set s. js_space c)"
  by (induction s) (auto split: list.splits)

lemma words_of_nonempty: "w \<in> set (words_of s) \<Longrightarrow> w \<noteq> []"
  by (induction s arbitrary: w) (auto split: if_splits list.splits)

lemma split_on_not_Nil: "split_on d s \<noteq> []"
  by (induction s) (auto split: list.splits)

lemma split_on_single_empty: "split_on d s = [[]] \<longleftrightarrow> s = []"
  by (cases s) (auto simp: split_on_not_Nil split: list.splits)

lemma space_32: "js_space 32"
  by (simp add: js_space_def)

lemma dropWhile_collapse:
  "dropWhile js_space (collapse_spaces s) = collapse_spaces (dropWhile js_space s)"
proof (induction s rule: collapse_spaces.induct)
  case 1
  then show ?case by simp
next
  case (2 c cs)
  then show ?case by (simp add: space_32)
qed

lemma split_trim_end_collapse:
  "split_on 32 (trim_end (collapse_spaces s)) =
     (if words_of s = [] then [[]]
      else if js_space (hd s) then [] # words_of s else words_of s)"
proof (induction s rule: collapse_spaces.induct)
  case 1
  then show ?case by simp
next
  case (2 c cs)
  show ?case
  proof (cases "js_space c")
    case True
    let ?d = "dropWhile js_space cs"
    have hd_d: "?d \<noteq> [] \<Longrightarrow> \<not> js_space (hd ?d)"
      by (metis hd_dropWhile)
    have w: "words_of (c # cs) = words_of ?d"
      using True by (simp add: words_of_dropWhile)
    have ih: "split_on 32 (trim_end (collapse_spaces ?d)) =
                (if words_of ?d = [] then [[]] else words_of ?d)"
    proof (cases "words_of ?d = []")
      case True
      then show ?thesis using "2.IH"(1) [OF \<open>js_space c\<close>] by simp
    next
      case False
      then have "?d \<noteq> []" by (metis words_of.simps(1))
      then have "\<not> js_space (hd ?d)" by (rule hd_d)
      then show ?thesis using "2.IH"(1) [OF \<open>js_space c\<close>] False by simp
    qed
    show ?thesis
    proof (cases "words_of ?d = []")
      case e: True
      then have "trim_end (collapse_spaces ?d) = []"
        using ih by (simp add: split_on_single_empty)
      then show ?thesis using True e w by (simp add: space_32)
    next
      case ne: False
      then have "split_on 32 (trim_end (collapse_spaces ?d)) \<noteq> [[]]"
        using ih words_of_nonempty [of "[]" ?d] by auto
      then have "trim_end (collapse_spaces ?d) \<noteq> []"
        by (simp add: split_on_single_empty)
      then show ?thesis using True ne w ih by (simp add: space_32)
    qed
  next
    case False
    then have c32: "c \<noteq> 32" using space_32 by blast
    have ih: "split_on 32 (trim_end (collapse_spaces cs)) =
               (if words_of cs = [] then [[]]
                else if js_space (hd cs) then [] # words_of cs else words_of cs)"
      using "2.IH"(2) [OF False] .
    show ?thesis
    proof (cases "cs = [] \<or> js_space (hd cs)")
      case first: True
      show ?thesis
      proof (cases "words_of cs = []")
        case True
        then show ?thesis using False c32 ih first by simp
      next
        case ne: False
        then have "cs \<noteq> []" by (metis words_of.simps(1))
        then have "js_space (hd cs)" using first by simp
        then show ?thesis using False c32 ih first ne by simp
      qed
    next
      case nsp: False
      then have "words_of cs \<noteq> []"
        by (metis words_of_Nil_iff hd_in_set)
      then show ?thesis using False c32 ih nsp by (auto split: list.splits)
    qed
  qed
qed

lemma split_trim_collapse:
  "split_on 32 (trim (collapse_spaces s)) = (if words_of s = [] then [[]] else words_of s)"
proof -
  let ?d = "dropWhile js_space s"
  have hd_d: "?d \<noteq> [] \<Longrightarrow> \<not> js_space (hd ?d)"
    by (metis hd_dropWhile)
  have "split_on 32 (trim (collapse_spaces s)) = split_on 32 (trim_end (collapse_spaces ?d))"
    by (simp add: trim_def dropWhile_collapse)
  also have "\<dots> = (if words_of ?d = [] then [[]] else words_of ?d)"
  proof (cases "words_of ?d = []")
    case True
    then show ?thesis by (simp add: split_trim_end_collapse)
  next
    case False
    then have "?d \<noteq> []" by (metis words_of.simps(1))
    then have "\<not> js_space (hd ?d)" by (rule hd_d)
    then show ?thesis using False by (simp add: split_trim_end_collapse)
  qed
  finally show ?thesis by (simp add: words_of_dropWhile)
qed

lemma join_take_split:
  "join d (take 8 (split_on 32 (trim (collapse_spaces s)))) = join d (take 8 (words_of s))"
  by (simp add: split_trim_collapse)

text \<open>
  The contract \<open>derive\<close> of the specification, before the extension is appended:
  normalise, turn every code unit that is neither an ASCII letter nor white space into
  white space, keep at most the first eight words, join them with hyphens, lower-case,
  and substitute \<^verbatim>\<open>image\<close> for an empty result.
\<close>

definition derive_stem_spec :: "(ustring \<Rightarrow> ustring) \<Rightarrow> ustring \<Rightarrow> ustring" where
  "derive_stem_spec N txt =
     (let ws = take 8 (words_of (replace_non_letters (N txt)));
          joined = toLowerCase (join (ustr ''-'') ws)
      in if joined = [] then ustr ''image'' else joined)"

subsection \<open>Code units of a derived name\<close>

lemma replace_units:
  "c \<in> set (replace_non_letters s) \<Longrightarrow> ascii_letter c \<or> js_space c"
  by (auto simp: replace_non_letters_def space_32 split: if_splits)

lemma words_units:
  "w \<in> set (words_of s) \<Longrightarrow> c \<in> set w \<Longrightarrow> c \<in> set s \<and> \<not> js_space c"
proof (induction s arbitrary: w)
  case Nil
  then show ?case by simp
next
  case (Cons a s)
  then show ?case
    by (fastforce split: if_splits list.splits)
qed

lemma join_units:
  "c \<in> set (join d ws) \<Longrightarrow> c \<in> set d \<or> (\<exists>w \<in> set ws. c \<in> set w)"
  by (induction d ws rule: join.induct) auto

lemma joined_units:
  assumes "c \<in> set (join (ustr ''-'') (take 8 (words_of (replace_non_letters s))))"
  shows "ascii_letter c \<or> c = 45"
proof -
  from join_units [OF assms] consider "c \<in> set (ustr ''-'')"
    | w where "w \<in> set (take 8 (words_of (replace_non_letters s)))" "c \<in> set w"
    by blast
  then show ?thesis
  proof cases
    case 1
    then show ?thesis by (simp add: ustr_def)
  next
    case 2
    then have "w \<in> set (words_of (replace_non_letters s))"
      by (meson in_set_takeD)
    with 2 have "c \<in> set (replace_non_letters s) \<and> \<not> js_space c"
      by (simp add: words_units)
    then show ?thesis using replace_units by blast
  qed
qed

lemma stem_eq:
  "stem N p =
     (let joined = toLowerCase (join (ustr ''-'') (take 8 (words_of (replace_non_letters
                     (N (if p = [] then ustr ''image'' else p))))))
      in if joined = [] then ustr ''image'' else joined)"
  by (simp add: stem_def join_take_split)

lemma stem_units: "c \<in> set (stem N p) \<Longrightarrow> (97 \<le> c \<and> c \<le> 122) \<or> c = 45"
proof -
  assume c: "c \<in> set (stem N p)"
  let ?j = "join (ustr ''-'') (take 8 (words_of (replace_non_letters
              (N (if p = [] then ustr ''image'' else p)))))"
  show ?thesis
  proof (cases "toLowerCase ?j = []")
    case True
    then have "stem N p = ustr ''image''" by (simp add: stem_eq)
    with c show ?thesis by (auto simp: ustr_def)
  next
    case False
    then have "stem N p = toLowerCase ?j" by (simp add: stem_eq)
    with c obtain b where b: "b \<in> set ?j" "c = (if 65 \<le> b \<and> b \<le> 90 then b + 32 else b)"
      by (auto simp: toLowerCase_def)
    from joined_units [OF b(1)] have "ascii_letter b \<or> b = 45" .
    with b(2) show ?thesis by (auto simp: ascii_letter_def)
  qed
qed

lemma stem_refines:
  assumes "fixes_ascii N"
  shows "stem N p = derive_stem_spec N p"
proof (cases "p = []")
  case False
  then show ?thesis by (simp add: stem_eq derive_stem_spec_def)
next
  case True
  have "N [] = []" using assms by (simp add: fixes_ascii_def)
  moreover have "N (ustr ''image'') = ustr ''image''"
    using assms by (simp add: fixes_ascii_def ustr_def)
  ultimately show ?thesis using True
    by (simp add: stem_eq derive_stem_spec_def ustr_def replace_non_letters_def ascii_letter_def
          js_space_def toLowerCase_def)
qed

lemma copies_units: "c \<in> set (copies k) \<Longrightarrow> c \<in> set copy_suffix"
  by (auto simp: copies_def)

lemmas eval_defs = lettersOnlyFilename_def stem_def ustr_def png_def copy_suffix_def
  replace_non_letters_def ascii_letter_def js_space_def trim_def toLowerCase_def
  copy_loop_taken copy_loop_free

text \<open>
  Claim C3.  The filename helper is a function of its arguments that implements the
  pipeline of the specification: NFKD-normalise, replace every code unit that is not an
  ASCII letter or white space by white space, collapse, trim, keep at most the first
  eight words, join with hyphens, lower-case, substitute \<^verbatim>\<open>image\<close> when empty,
  append \<^verbatim>\<open>.png\<close>.  With no existing names, the prompt \<^verbatim>\<open>A Red Fox! 2024\<close>
  gives \<^verbatim>\<open>a-red-fox.png\<close>.
\<close>

theorem C3_pipeline:
  assumes "fixes_ascii N"
  shows "stem N p = derive_stem_spec N p \<and>
         lettersOnlyFilename N p existingNames = copy_loop existingNames (derive_stem_spec N p) @ png \<and>
         lettersOnlyFilename N p {||} = derive_stem_spec N p @ png \<and>
         lettersOnlyFilename N (ustr ''A Red Fox! 2024'') {||} = ustr ''a-red-fox.png''"
proof -
  have st: "stem N q = derive_stem_spec N q" for q
    using assms by (rule stem_refines)
  have fox: "N (ustr ''A Red Fox! 2024'') = ustr ''A Red Fox! 2024''"
    using assms by (simp add: fixes_ascii_def ustr_def)
  have "lettersOnlyFilename N (ustr ''A Red Fox! 2024'') {||} = ustr ''a-red-fox.png''"
    using fox by (simp add: eval_defs)
  moreover have "lettersOnlyFilename N p {||} = derive_stem_spec N p @ png"
    by (simp add: lettersOnlyFilename_def st copy_loop_free)
  ultimately show ?thesis
    by (simp add: st lettersOnlyFilename_def)
qed

theorem C3_pipeline_witness:
  "fixes_ascii (\<lambda>s. s) \<and>
   lettersOnlyFilename (\<lambda>s. s) (ustr ''Oil painting, 2 cats'') {||}
     = derive_stem_spec (\<lambda>s. s) (ustr ''Oil painting, 2 cats'') @ png \<and>
   lettersOnlyFilename (\<lambda>s. s) (ustr ''A Red Fox! 2024'') {||} = ustr ''a-red-fox.png''"
proof -
  have h: "fixes_ascii (\<lambda>s. s)" by (simp add: fixes_ascii_def)
  show ?thesis using h C3_pipeline [OF h, of "ustr ''Oil painting, 2 cats''" "{||}"] by blast
qed

text \<open>
  Claim C4.  For every prompt and every finite set of existing names the helper returns
  a name outside the set.  The name is the stem followed by \<open>k\<close> copies of the
  constant suffix \<^verbatim>\<open>-copy\<close> and the extension, where every shorter candidate is
  taken; no digit occurs in it.  \<^verbatim>\<open>cat\<close> with \<^verbatim>\<open>cat.png\<close> taken gives
  \<^verbatim>\<open>cat-copy.png\<close>, and with \<^verbatim>\<open>cat-copy.png\<close> taken as well gives
  \<^verbatim>\<open>cat-copy-copy.png\<close>.
\<close>

theorem C4_unique:
  "lettersOnlyFilename N p existingNames |\<notin>| existingNames \<and>
   (\<exists>k. lettersOnlyFilename N p existingNames = stem N p @ copies k @ png \<and>
        (\<forall>j<k. stem N p @ copies j @ png |\<in>| existingNames)) \<and>
   (\<forall>c \<in> set (lettersOnlyFilename N p existingNames). \<not> (48 \<le> c \<and> c \<le> 57)) \<and>
   (fixes_ascii N \<longrightarrow>
      lettersOnlyFilename N (ustr ''cat'') {|ustr ''cat.png''|} = ustr ''cat-copy.png'' \<and>
      lettersOnlyFilename N (ustr ''cat'') {|ustr ''cat.png'', ustr ''cat-copy.png''|}
        = ustr ''cat-copy-copy.png'')"
proof -
  obtain k where k: "copy_loop existingNames (stem N p) = stem N p @ copies k"
      "\<forall>j<k. stem N p @ copies j @ png |\<in>| existingNames"
      "stem N p @ copies k @ png |\<notin>| existingNames"
    using copy_loop_form [of existingNames "stem N p"] by blast
  have form: "lettersOnlyFilename N p existingNames = stem N p @ copies k @ png"
    using k(1) by (simp add: lettersOnlyFilename_def)
  have fresh: "lettersOnlyFilename N p existingNames |\<notin>| existingNames"
    using k(3) form by simp
  have nodigit: "\<not> (48 \<le> c \<and> c \<le> 57)" if "c \<in> set (lettersOnlyFilename N p existingNames)" for c
  proof -
    from that form consider "c \<in> set (stem N p)" | "c \<in> set (copies k)" | "c \<in> set png"
      by auto
    then show ?thesis
    proof cases
      case 1
      then show ?thesis using stem_units by fastforce
    next
      case 2
      then have "c \<in> set copy_suffix" by (rule copies_units)
      then show ?thesis by (auto simp: copy_suffix_def ustr_def)
    next
      case 3
      then show ?thesis by (auto simp: png_def ustr_def)
    qed
  qed
  have ex: "lettersOnlyFilename N (ustr ''cat'') {|ustr ''cat.png''|} = ustr ''cat-copy.png'' \<and>
      lettersOnlyFilename N (ustr ''cat'') {|ustr ''cat.png'', ustr ''cat-copy.png''|}
        = ustr ''cat-copy-copy.png''" if "fixes_ascii N"
  proof -
    have "N (ustr ''cat'') = ustr ''cat''"
      using that by (simp add: fixes_ascii_def ustr_def)
    then show ?thesis by (simp add: eval_defs)
  qed
  show ?thesis using fresh form k(2) nodigit ex by blast
qed

theorem C4_unique_witness:
  "lettersOnlyFilename (\<lambda>s. s) (ustr ''cat'') {|ustr ''cat.png'', ustr ''cat-copy.png''|}
     |\<notin>| {|ustr ''cat.png'', ustr ''cat-copy.png''|} \<and>
   fixes_ascii (\<lambda>s. s) \<and>
   lettersOnlyFilename (\<lambda>s. s) (ustr ''cat'') {|ustr ''cat.png'', ustr ''cat-copy.png''|}
     = ustr ''cat-copy-copy.png''"
proof -
  have h: "fixes_ascii (\<lambda>s. s)" by (simp add: fixes_ascii_def)
  show ?thesis
    using h C4_unique [of "\<lambda>s. s" "ustr ''cat''" "{|ustr ''cat.png'', ustr ''cat-copy.png''|}"]
    by blast
qed

section \<open>The page component: state\<close>

text \<open>
  The state of \<^verbatim>\<open>ImageHubApp\<close> in \<^verbatim>\<open>app/page.jsx\<close>: one field per \<^verbatim>\<open>useState\<close>
  cell that the queue reads or writes.  A result record is
  \<^verbatim>\<open>{prompt, name, status, dataUrl?, error?}\<close>; an absent field is \<open>None\<close>.
\<close>

datatype status = pending | ok | fail

text \<open>
  The value an awaited call resolves to, which becomes the \<^verbatim>\<open>dataUrl\<close> of a record.  The
  engines of the file resolve to a string (\<open>Text\<close>); \<open>Other_value\<close> stands for a value
  that is not a string.
\<close>

datatype resolved = Text ustring | Other_value

record item =
  prompt :: ustring
  name :: ustring
  status :: status
  dataUrl :: "resolved option"
  error :: "ustring option"

record app =
  loggedIn :: bool
  loginOpen :: bool
  provider :: ustring
  key :: ustring
  promptText :: ustring
  queueIndex :: nat
  running :: bool
  paused :: bool
  results :: "item list"

text \<open>\<^verbatim>\<open>promptText.split(/\r?\n/)\<close>: a line feed, or a carriage return and a line feed, separates.\<close>

fun split_lines :: "ustring \<Rightarrow> ustring list" where
  "split_lines [] = [[]]"
| "split_lines (c # cs) =
     (if c = 10 then [] # split_lines cs
      else (case cs of
              d # ds \<Rightarrow>
                if c = 13 \<and> d = 10 then [] # split_lines ds
                else (case split_lines cs of [] \<Rightarrow> [[c]] | l # ls \<Rightarrow> (c # l) # ls)
            | [] \<Rightarrow> [[c]]))"

text \<open>\<^verbatim>\<open>prompts = promptText.split(/\r?\n/).map((s) => s.trim()).filter(Boolean)\<close>\<close>

definition prompts :: "app \<Rightarrow> ustring list" where
  "prompts s = filter (\<lambda>l. l \<noteq> []) (map trim (split_lines (promptText s)))"

definition total_prompts :: "app \<Rightarrow> nat" where
  "total_prompts s = length (prompts s)"

text \<open>\<^verbatim>\<open>existingNames = new Set(results.map((r) => r.name).filter(Boolean))\<close>\<close>

definition existingNames :: "app \<Rightarrow> ustring fset" where
  "existingNames s = fset_of_list (filter (\<lambda>n. n \<noteq> []) (map name (results s)))"

text \<open>
  \<^verbatim>\<open>PROVIDERS\<close>, the identifiers the component offers; the provider state starts as
  \<^verbatim>\<open>PROVIDERS[0]\<close>.  The fifth code unit of the fifth entry is U+00B7.
\<close>

definition PROVIDERS :: "ustring list" where
  "PROVIDERS =
     [ustr ''Gemini'', ustr ''ChatGPT'', ustr ''Bing AI'', ustr ''Leonardo'',
      ustr ''DALL'' @ [183] @ ustr ''E (OpenAI)'', ustr ''Gemini Banana'', ustr ''Stability AI'']"

text \<open>
  The keys of the object literal \<^verbatim>\<open>providerEngines\<close>, each bound to an async function.
  The lookup \<^verbatim>\<open>providerEngines[provider]\<close> also finds what the object inherits from
  \<^verbatim>\<open>Object.prototype\<close>: eleven functions, and the object \<^verbatim>\<open>Object.prototype\<close> itself
  under \<^verbatim>\<open>__proto__\<close>.  For every other identifier it is \<^verbatim>\<open>undefined\<close>.
  \<open>registered p\<close> says that the lookup gives a function, which \<^verbatim>\<open>engine(p, key)\<close> then
  calls; \<open>engine_found p\<close> says that the lookup gives a truthy value.
\<close>

definition providerEngines :: "ustring list" where
  "providerEngines =
     [ustr ''Gemini'', ustr ''DALL'' @ [183] @ ustr ''E (OpenAI)'', ustr ''Stability AI'',
      ustr ''Gemini Banana'', ustr ''ChatGPT'', ustr ''Bing AI'', ustr ''Leonardo'']"

definition object_prototype_functions :: "ustring list" where
  "object_prototype_functions =
     [ustr ''constructor'', ustr ''hasOwnProperty'', ustr ''isPrototypeOf'',
      ustr ''propertyIsEnumerable'', ustr ''toLocaleString'', ustr ''toString'', ustr ''valueOf'',
      ustr ''__defineGetter__'', ustr ''__defineSetter__'', ustr ''__lookupGetter__'',
      ustr ''__lookupSetter__'']"

definition registered :: "ustring \<Rightarrow> bool" where
  "registered p \<longleftrightarrow> p \<in> set providerEngines \<or> p \<in> set object_prototype_functions"

definition engine_found :: "ustring \<Rightarrow> bool" where
  "engine_found p \<longleftrightarrow> registered p \<or> p = ustr ''__proto__''"

text \<open>
  What the called function does is decided outside the component: the call throws or
  rejects with an error whose \<^verbatim>\<open>message\<close> is \<open>m\<close> (\<open>Inl m\<close>), or resolves to a value
  \<open>u\<close> (\<open>Inr u\<close>), for an engine of the file the string of a data URL.  Calling a value
  that is not a function (\<^verbatim>\<open>undefined\<close>, or the object under \<^verbatim>\<open>__proto__\<close>) throws a
  \<^verbatim>\<open>TypeError\<close> with the message below.
\<close>

type_synonym outcome = "ustring + resolved"

definition not_a_function :: ustring where
  "not_a_function = ustr ''engine is not a function''"

text \<open>\<^verbatim>\<open>xs.map((r, i) => f(i, r))\<close> and \<^verbatim>\<open>xs[i]\<close>, which is \<^verbatim>\<open>undefined\<close> out of range.\<close>

definition map_index :: "(nat \<Rightarrow> 'a \<Rightarrow> 'b) \<Rightarrow> 'a list \<Rightarrow> 'b list" where
  "map_index f xs = map (\<lambda>(i, x). f i x) (enumerate 0 xs)"

definition item_at :: "'a list \<Rightarrow> nat \<Rightarrow> 'a option" where
  "item_at xs i = (if i < length xs then Some (xs ! i) else None)"

section \<open>The page component: effects\<close>

text \<open>
  \<^verbatim>\<open>
  useEffect(() => {
    if (!running) {
      setResults(prompts.map((p) => ({
        prompt: p, name: lettersOnlyFilename(p, new Set()), status: "pending" })));
      setQueueIndex(0);
    }
  }, [promptText, running]);
  \<close>
  \<open>rebuild\<close> is the body of the effect.  React runs the body after a render in which
  \<^verbatim>\<open>promptText\<close> or \<^verbatim>\<open>running\<close> differs from the previous render: \<open>rebuild_effect\<close>
  takes the state \<open>old\<close> of the previous render and the state \<open>new\<close> of this one.
\<close>

definition rebuild :: "(ustring \<Rightarrow> ustring) \<Rightarrow> app \<Rightarrow> app" where
  "rebuild N s =
     (if \<not> running s then
        s\<lparr>results := map (\<lambda>p. \<lparr>prompt = p, name = lettersOnlyFilename N p {||},
                                 status = pending, dataUrl = None, error = None\<rparr>) (prompts s),
          queueIndex := 0\<rparr>
      else s)"

definition rebuild_effect :: "(ustring \<Rightarrow> ustring) \<Rightarrow> app \<Rightarrow> app \<Rightarrow> app" where
  "rebuild_effect N old new =
     (if promptText new \<noteq> promptText old \<or> running new \<noteq> running old then rebuild N new
      else new)"

text \<open>
  The worker effect runs \<^verbatim>\<open>work()\<close> after every render in which one of its
  dependencies changed.  \<open>work_dispatch\<close> is \<^verbatim>\<open>work\<close> up to the call of the engine:
  \<^verbatim>\<open>
  if (!running || paused) return;
  if (queueIndex >= total) { setRunning(false); return; }
  const p = prompts[queueIndex];
  const engine = providerEngines[provider];
  const name = results[queueIndex]?.name || lettersOnlyFilename(p, existingNames);
  try { const dataUrl = await engine(p, key); ...
  \<close>
\<close>

datatype dispatch =
    Skip
  | Complete
  | Call ustring ustring ustring
  | No_engine

definition work_dispatch :: "app \<Rightarrow> dispatch" where
  "work_dispatch s =
     (if \<not> running s \<or> paused s then Skip
      else if queueIndex s \<ge> total_prompts s then Complete
      else if registered (provider s) then Call (provider s) (prompts s ! queueIndex s) (key s)
      else No_engine)"

definition work_name :: "(ustring \<Rightarrow> ustring) \<Rightarrow> app \<Rightarrow> ustring" where
  "work_name N s =
     (case item_at (results s) (queueIndex s) of
        Some r \<Rightarrow>
          if name r \<noteq> [] then name r
          else lettersOnlyFilename N (prompts s ! queueIndex s) (existingNames s)
      | None \<Rightarrow> lettersOnlyFilename N (prompts s ! queueIndex s) (existingNames s))"

text \<open>
  The rest of \<^verbatim>\<open>work\<close>, once the engine call has settled.  \<open>qi\<close> and \<open>nm\<close> are the
  \<^verbatim>\<open>queueIndex\<close> and \<^verbatim>\<open>name\<close> captured at dispatch, \<open>cancelled\<close> is the flag that the
  cleanup of the effect sets, \<open>prev\<close> is the state the updater functions receive:
  \<^verbatim>\<open>
  try {
    const dataUrl = await engine(p, key);
    if (cancelled) return;
    setResults((prev) => prev.map((r, i) =>
      i === queueIndex ? { ...r, name, status: "ok", dataUrl } : r));
  } catch (e) {
    if (cancelled) return;
    setResults((prev) => prev.map((r, i) =>
      i === queueIndex ? { ...r, name, status: "fail", error: e.message } : r));
  } finally {
    if (!cancelled) setQueueIndex((i) => i + 1);
  }
  \<close>
\<close>

definition settle_item :: "ustring \<Rightarrow> outcome \<Rightarrow> item \<Rightarrow> item" where
  "settle_item nm out r =
     (case out of
        Inr url \<Rightarrow> r\<lparr>name := nm, status := ok, dataUrl := Some url\<rparr>
      | Inl msg \<Rightarrow> r\<lparr>name := nm, status := fail, error := Some msg\<rparr>)"

definition work_settle :: "bool \<Rightarrow> nat \<Rightarrow> ustring \<Rightarrow> outcome \<Rightarrow> app \<Rightarrow> app" where
  "work_settle cancelled qi nm out prev =
     (if cancelled then prev
      else prev\<lparr>results := map_index (\<lambda>i r. if i = qi then settle_item nm out r else r)
                                 (results prev),
                queueIndex := queueIndex prev + 1\<rparr>)"

text \<open>
  One run of \<^verbatim>\<open>work\<close> from the state \<open>s\<close> of its render.  A missing engine throws inside
  \<^verbatim>\<open>try\<close> before anything is awaited, so the cleanup cannot have run yet.
\<close>

definition work :: "(ustring \<Rightarrow> ustring) \<Rightarrow> bool \<Rightarrow> outcome \<Rightarrow> app \<Rightarrow> app" where
  "work N cancelled out s =
     (case work_dispatch s of
        Skip \<Rightarrow> s
      | Complete \<Rightarrow> s\<lparr>running := False\<rparr>
      | Call e p k \<Rightarrow> work_settle cancelled (queueIndex s) (work_name N s) out s
      | No_engine \<Rightarrow> work_settle False (queueIndex s) (work_name N s) (Inl not_a_function) s)"

section \<open>The page component: actions\<close>

text \<open>
  \<^verbatim>\<open>
  const start = () => {
    if (!auth.loggedIn) { setLoginOpen(true); return; }
    if (!prompts.length) return;
    setQueueIndex(0); setRunning(true); setPaused(false);
  };
  const stop = () => { setRunning(false); setPaused(false); };
  const pause = () => setPaused(true);
  const resume = () => setPaused(false);
  const clearAll = () => {
    setPromptText(""); setResults([]); setQueueIndex(0); setRunning(false); setPaused(false);
  };
  \<close>
\<close>

definition start :: "app \<Rightarrow> app" where
  "start s =
     (if \<not> loggedIn s then s\<lparr>loginOpen := True\<rparr>
      else if prompts s = [] then s
      else s\<lparr>queueIndex := 0, running := True, paused := False\<rparr>)"

definition stop :: "app \<Rightarrow> app" where
  "stop s = s\<lparr>running := False, paused := False\<rparr>"



definition clearAll :: "app \<Rightarrow> app" where
  "clearAll s = s\<lparr>promptText := [], results := [], queueIndex := 0, running := False,
                  paused := False\<rparr>"

definition setPromptText :: "ustring \<Rightarrow> app \<Rightarrow> app" where
  "setPromptText t s = s\<lparr>promptText := t\<rparr>"


text \<open>
  An action followed by the render it causes: the rebuild effect sees the state before
  the action as the previous render.
\<close>

definition act :: "(ustring \<Rightarrow> ustring) \<Rightarrow> (app \<Rightarrow> app) \<Rightarrow> app \<Rightarrow> app" where
  "act N h s = rebuild_effect N s (h s)"

text \<open>
  \<^verbatim>\<open>
  const regenerateOne = async (idx) => {
    const p = results[idx];
    if (!p) return;
    try {
      const engine = providerEngines[provider];
      setResults((prev) => prev.map((r, i) =>
        i === idx ? { ...r, status: "pending", error: undefined } : r));
      const dataUrl = await engine(p.prompt, key);
      setResults((prev) => prev.map((r, i) => (i === idx ? { ...r, status: "ok", dataUrl } : r)));
    } catch (e) {
      setResults((prev) => prev.map((r, i) =>
        i === idx ? { ...r, status: "fail", error: e.message } : r));
    }
  };
  \<close>
  \<open>regenerate_begin\<close> runs up to the \<^verbatim>\<open>await\<close> and returns the state together with the
  engine call that is awaited (\<open>None\<close> when \<^verbatim>\<open>engine\<close> is not a function and the call
  throws at once); \<open>regenerate_settle\<close> is the update after the call has settled.
\<close>

definition regenerate_begin :: "app \<Rightarrow> nat \<Rightarrow> (app \<times> (ustring \<times> ustring \<times> ustring) option) option" where
  "regenerate_begin s idx =
     (case item_at (results s) idx of
        None \<Rightarrow> None
      | Some p \<Rightarrow>
          Some (s\<lparr>results := map_index (\<lambda>i r. if i = idx then r\<lparr>status := pending, error := None\<rparr>
                                                 else r) (results s)\<rparr>,
                if registered (provider s) then Some (provider s, prompt p, key s) else None))"

definition regenerate_settle :: "nat \<Rightarrow> outcome \<Rightarrow> app \<Rightarrow> app" where
  "regenerate_settle idx out prev =
     prev\<lparr>results := map_index (\<lambda>i r. if i = idx then
                (case out of
                   Inr url \<Rightarrow> r\<lparr>status := ok, dataUrl := Some url\<rparr>
                 | Inl msg \<Rightarrow> r\<lparr>status := fail, error := Some msg\<rparr>)
              else r) (results prev)\<rparr>"

text \<open>
  The whole of \<^verbatim>\<open>regenerateOne\<close>: the state while the call is pending, the engine call,
  and the state after it has settled with \<open>out\<close>.
\<close>

definition regenerateOne ::
  "app \<Rightarrow> nat \<Rightarrow> outcome \<Rightarrow> app \<times> (ustring \<times> ustring \<times> ustring) option \<times> app" where
  "regenerateOne s idx out =
     (case regenerate_begin s idx of
        None \<Rightarrow> (s, None, s)
      | Some (s1, None) \<Rightarrow> (s1, None, regenerate_settle idx (Inl not_a_function) s1)
      | Some (s1, Some c) \<Rightarrow> (s1, Some c, regenerate_settle idx out s1))"

lemma prompts_work [simp]: "prompts (work N c out s) = prompts s"
  by (simp add: work_def work_settle_def prompts_def split: dispatch.splits)

lemma work_step_decreases:
  assumes "work_dispatch s = Call e p k \<or> work_dispatch s = No_engine"
  shows "length (prompts s) - queueIndex (work N False out s) < length (prompts s) - queueIndex s"
proof -
  have "queueIndex s < length (prompts s)"
    using assms by (auto simp: work_dispatch_def total_prompts_def split: if_splits)
  moreover have "queueIndex (work N False out s) = queueIndex s + 1"
    using assms by (auto simp: work_def work_settle_def)
  ultimately show ?thesis by simp
qed

text \<open>
  A run of the worker: \<^verbatim>\<open>work\<close> is run again after each render it causes, the engine
  calls settle with the outcomes \<open>outs\<close> in order and no other action intervenes.  When
  \<^verbatim>\<open>work\<close> sets \<^verbatim>\<open>running\<close> to false, the next render runs the rebuild effect.  The
  run stops there, or when it waits for an outcome that \<open>outs\<close> does not hold.  (\<open>work\<close>
  does not read its outcome argument when the cursor is at the end or the engine is
  missing.)
\<close>

function worker_run :: "(ustring \<Rightarrow> ustring) \<Rightarrow> outcome list \<Rightarrow> app \<Rightarrow> app" where
  "worker_run N outs s =
     (case work_dispatch s of
        Skip \<Rightarrow> s
      | Complete \<Rightarrow> rebuild_effect N s (work N False (Inl []) s)
      | No_engine \<Rightarrow> worker_run N outs (work N False (Inl []) s)
      | Call e p k \<Rightarrow>
          (case outs of
             [] \<Rightarrow> s
           | out # rest \<Rightarrow> worker_run N rest (work N False out s)))"
  by pat_completeness auto
termination worker_run
  by (relation "measure (\<lambda>(N, outs, s). total_prompts s - queueIndex s)")
     (simp_all add: total_prompts_def work_step_decreases)

declare worker_run.simps [simp del]

section \<open>Facts about the list updates\<close>

lemma length_map_index [simp]: "length (map_index f xs) = length xs"
  by (simp add: map_index_def)

lemma nth_map_index [simp]: "i < length xs \<Longrightarrow> map_index f xs ! i = f i (xs ! i)"
  by (simp add: map_index_def nth_enumerate_eq)

lemma map_index_at:
  "map_index (\<lambda>i r. if i = q then g r else r) xs =
     (if q < length xs then xs[q := g (xs ! q)] else xs)"
  by (rule nth_equalityI) (auto simp: nth_list_update)

lemma lettersOnlyFilename_not_Nil [simp]: "lettersOnlyFilename N p ex \<noteq> []"
  by (simp add: lettersOnlyFilename_def png_def ustr_def)

lemma total_work [simp]: "total_prompts (work N c out s) = total_prompts s"
  by (simp add: total_prompts_def)

lemma status_settle_item [simp]: "status (settle_item nm out r) \<noteq> pending"
  by (simp add: settle_item_def split: sum.splits)

lemma prompts_empty_text: "promptText s = [] \<Longrightarrow> prompts s = []"
  by (simp add: prompts_def trim_def)

section \<open>Concrete sessions\<close>

text \<open>
  The states used below to run the component on concrete input.  \<open>idle\<close> is the
  component after login with nothing typed; \<open>started N t\<close> is \<open>idle\<close> after the text \<open>t\<close>
  was entered and the start button pressed; \<open>mid_run N\<close> is the run over two prompts
  after the first engine call has resolved.  Where a closed example needs a normaliser,
  it is the identity on prompts that are ASCII, in line with \<open>fixes_ascii\<close>.
\<close>

definition cat_prompt :: ustring where
  "cat_prompt = ustr ''cat''"

definition dog_prompt :: ustring where
  "dog_prompt = ustr ''dog''"

definition cat_dog_text :: ustring where
  "cat_dog_text = cat_prompt @ [10] @ dog_prompt"

definition a_data_url :: resolved where
  "a_data_url = Text (ustr ''data:image/png;base64,iVBORw0KGgo='')"

definition generation_failed :: ustring where
  "generation_failed = ustr ''Generation failed''"

definition idle :: app where
  "idle = \<lparr>loggedIn = True, loginOpen = False, provider = ustr ''Gemini'', key = ustr ''k'',
           promptText = [], queueIndex = 0, running = False, paused = False, results = []\<rparr>"

definition started :: "(ustring \<Rightarrow> ustring) \<Rightarrow> ustring \<Rightarrow> app" where
  "started N t = act N start (act N (setPromptText t) idle)"

definition mid_run :: "(ustring \<Rightarrow> ustring) \<Rightarrow> app" where
  "mid_run N = work N False (Inr a_data_url) (started N cat_dog_text)"

definition cursor_at_cat :: app where
  "cursor_at_cat =
     \<lparr>loggedIn = True, loginOpen = False, provider = ustr ''Gemini'', key = ustr ''k'',
      promptText = cat_dog_text, queueIndex = 0, running = True, paused = False,
      results = [\<lparr>prompt = cat_prompt, name = ustr ''cat.png'', status = pending,
                   dataUrl = None, error = None\<rparr>,
                 \<lparr>prompt = dog_prompt, name = ustr ''dog.png'', status = pending,
                   dataUrl = None, error = None\<rparr>]\<rparr>"

definition cursor_at_dog :: app where
  "cursor_at_dog =
     \<lparr>loggedIn = True, loginOpen = False, provider = ustr ''Gemini'', key = ustr ''k'',
      promptText = cat_dog_text, queueIndex = 1, running = True, paused = False,
      results = [\<lparr>prompt = cat_prompt, name = ustr ''cat.png'', status = ok,
                   dataUrl = Some a_data_url, error = None\<rparr>,
                 \<lparr>prompt = dog_prompt, name = ustr ''dog.png'', status = pending,
                   dataUrl = None, error = None\<rparr>]\<rparr>"

definition cat_done :: app where
  "cat_done =
     \<lparr>loggedIn = True, loginOpen = False, provider = ustr ''Gemini'', key = ustr ''k'',
      promptText = cat_prompt, queueIndex = 0, running = False, paused = False,
      results = [\<lparr>prompt = cat_prompt, name = ustr ''cat.png'', status = ok,
                   dataUrl = Some a_data_url, error = None\<rparr>]\<rparr>"

definition midjourney :: ustring where
  "midjourney = ustr ''Midjourney''"

definition unknown_started :: "(ustring \<Rightarrow> ustring) \<Rightarrow> app" where
  "unknown_started N = act N start (act N (setPromptText cat_prompt) (idle\<lparr>provider := midjourney\<rparr>))"

lemmas run_defs = act_def rebuild_effect_def rebuild_def setPromptText_def start_def stop_def
  clearAll_def prompts_def total_prompts_def trim_def js_space_def ustr_def work_def
  work_dispatch_def work_settle_def work_name_def item_at_def map_index_def settle_item_def
  registered_def providerEngines_def object_prototype_functions_def not_a_function_def

lemmas session_defs = started_def mid_run_def cat_dog_text_def cat_prompt_def dog_prompt_def
  idle_def

lemma started_two_lines:
  assumes "fixes_ascii N"
  shows "started N cat_dog_text = cursor_at_cat" and "mid_run N = cursor_at_dog"
proof -
  have "N (ustr ''cat'') = ustr ''cat''" "N (ustr ''dog'') = ustr ''dog''"
    using assms by (simp_all add: fixes_ascii_def ustr_def)
  then have n: "lettersOnlyFilename N (ustr ''cat'') {||} = ustr ''cat.png''"
       "lettersOnlyFilename N (ustr ''dog'') {||} = ustr ''dog.png''"
    by (simp_all add: eval_defs)
  show "started N cat_dog_text = cursor_at_cat"
    using n by (simp add: session_defs cursor_at_cat_def cursor_at_dog_def run_defs)
  show "mid_run N = cursor_at_dog"
    using n by (simp add: session_defs cursor_at_cat_def cursor_at_dog_def run_defs)
qed

section \<open>Building the item list\<close>

lemma rebuild_not_running:
  "\<not> running s \<Longrightarrow>
     queueIndex (rebuild N s) = 0 \<and>
     map prompt (results (rebuild N s)) = prompts s \<and>
     map status (results (rebuild N s)) = replicate (total_prompts s) pending \<and>
     map dataUrl (results (rebuild N s)) = replicate (total_prompts s) None \<and>
     map error (results (rebuild N s)) = replicate (total_prompts s) None"
  by (simp add: rebuild_def total_prompts_def comp_def map_replicate_const)

lemma rebuild_names:
  "\<not> running s \<Longrightarrow>
     map name (results (rebuild N s)) = map (\<lambda>p. lettersOnlyFilename N p {||}) (prompts s)"
  by (simp add: rebuild_def comp_def)

text \<open>
  Claim C5 says that the names of a rebuilt item list are pairwise distinct, also when
  the text holds the same line twice.  The rebuild passes a fresh empty set to
  \<open>lettersOnlyFilename\<close> for every line, so the loop that makes names unique never
  runs: the text of the two lines \<^verbatim>\<open>cat\<close> and \<^verbatim>\<open>cat\<close> gives two items of the same name,
  whatever the normaliser.
\<close>

theorem C5_duplicate_lines_share_name:
  "map prompt (results (act N (setPromptText (cat_prompt @ [10] @ cat_prompt)) idle))
     = [cat_prompt, cat_prompt] \<and>
   map name (results (act N (setPromptText (cat_prompt @ [10] @ cat_prompt)) idle))
     = [lettersOnlyFilename N cat_prompt {||}, lettersOnlyFilename N cat_prompt {||}] \<and>
   \<not> distinct (map name (results (act N (setPromptText (cat_prompt @ [10] @ cat_prompt)) idle)))"
  by (simp add: session_defs run_defs)

theorem C5_duplicate_lines_share_name_witness:
  "map name (results (act (\<lambda>t. t) (setPromptText (cat_prompt @ [10] @ cat_prompt)) idle))
     = [ustr ''cat.png'', ustr ''cat.png'']"
proof -
  have "lettersOnlyFilename (\<lambda>t. t) cat_prompt {||} = ustr ''cat.png''"
    by (simp add: cat_prompt_def eval_defs)
  then show ?thesis
    using C5_duplicate_lines_share_name [of "\<lambda>t. t"] by simp
qed

section \<open>A run of the worker\<close>

text \<open>
  \<open>settled_upto k s\<close>: the worker may advance, there is one record per prompt, the
  cursor is \<open>k\<close> and the first \<open>k\<close> records are no longer pending.
\<close>

definition settled_upto :: "nat \<Rightarrow> app \<Rightarrow> bool" where
  "settled_upto k s \<longleftrightarrow>
     running s \<and> \<not> paused s \<and> length (results s) = total_prompts s \<and> queueIndex s = k \<and>
     list_all (\<lambda>r. status r \<noteq> pending) (take k (results s))"

lemma work_step_settled:
  assumes "settled_upto k s" "k < total_prompts s"
  shows "settled_upto (Suc k) (work N False out s)"
proof -
  from assms have d: "work_dispatch s = Call (provider s) (prompts s ! k) (key s)
                        \<or> work_dispatch s = No_engine"
    by (auto simp: settled_upto_def work_dispatch_def)
  from assms have len: "k < length (results s)" by (simp add: settled_upto_def)
  obtain o' where w: "work N False out s = work_settle False k (work_name N s) o' s"
    using d assms(1) by (auto simp: work_def settled_upto_def)
  have r: "results (work N False out s)
             = (results s)[k := settle_item (work_name N s) o' (results s ! k)]"
    using len by (simp add: w work_settle_def map_index_at)
  have "take (Suc k) (results (work N False out s))
          = take k (results s) @ [settle_item (work_name N s) o' (results s ! k)]"
    using len by (simp add: r take_Suc_conv_app_nth)
  then have "list_all (\<lambda>r. status r \<noteq> pending) (take (Suc k) (results (work N False out s)))"
    using assms(1) by (simp add: settled_upto_def)
  moreover have "queueIndex (work N False out s) = Suc k" "running (work N False out s)"
      "\<not> paused (work N False out s)"
      "length (results (work N False out s)) = total_prompts s"
    using assms(1) len by (simp_all add: w work_settle_def settled_upto_def)
  ultimately show ?thesis by (simp add: settled_upto_def)
qed

text \<open>
  While the cursor moves from \<open>k\<close> to the number of prompts, every dispatch settles its
  record: when the cursor has reached the end, and \<^verbatim>\<open>running\<close> is still true, no record
  is pending.
\<close>

lemma dispatch_phase_settled:
  assumes "settled_upto k s" "length outs = total_prompts s - k" "k \<le> total_prompts s"
  shows "settled_upto (total_prompts s) (fold (work N False) outs s)"
  using assms
proof (induction outs arbitrary: k s)
  case Nil
  then show ?case by simp
next
  case (Cons out outs)
  then have k: "k < total_prompts s" by simp
  have "settled_upto (Suc k) (work N False out s)"
    using Cons.prems(1) k by (rule work_step_settled)
  moreover have "length outs = total_prompts (work N False out s) - Suc k"
    using Cons.prems(2) by simp
  moreover have "Suc k \<le> total_prompts (work N False out s)" using k by simp
  ultimately have "settled_upto (total_prompts (work N False out s))
                     (fold (work N False) outs (work N False out s))"
    by (rule Cons.IH)
  then show ?case by simp
qed

lemma settled_total_all:
  assumes "settled_upto (total_prompts s) s"
  shows "queueIndex s = total_prompts s \<and>
         (\<forall>r \<in> set (results s). status r = ok \<or> status r = fail)"
proof -
  from assms have "take (total_prompts s) (results s) = results s"
    by (simp add: settled_upto_def)
  with assms have "list_all (\<lambda>r. status r \<noteq> pending) (results s)"
    by (simp add: settled_upto_def)
  then have "\<forall>r \<in> set (results s). status r = ok \<or> status r = fail"
    by (auto simp: list_all_iff) (metis status.exhaust)
  then show ?thesis using assms by (simp add: settled_upto_def)
qed

text \<open>
  The next run of \<^verbatim>\<open>work\<close> finds the cursor at the end and sets \<^verbatim>\<open>running\<close> to false.
  \<^verbatim>\<open>running\<close> is a dependency of the rebuild effect, whose body runs when \<^verbatim>\<open>running\<close> is
  false: every record is rebuilt as pending and the cursor returns to 0.
\<close>

lemma worker_run_Complete:
  "work_dispatch s = Complete \<Longrightarrow> worker_run N outs s = rebuild N (s\<lparr>running := False\<rparr>)"
  by (subst worker_run.simps)
     (auto simp: work_def rebuild_effect_def work_dispatch_def split: if_splits)

lemma completion_resets:
  assumes "settled_upto (total_prompts s) s"
  shows "queueIndex (worker_run N outs s) = 0 \<and>
         map status (results (worker_run N outs s)) = replicate (total_prompts s) pending \<and>
         \<not> running (worker_run N outs s)"
proof -
  have "work_dispatch s = Complete"
    using assms by (simp add: settled_upto_def work_dispatch_def)
  then have w: "worker_run N outs s = rebuild N (s\<lparr>running := False\<rparr>)"
    by (rule worker_run_Complete)
  have t: "total_prompts (s\<lparr>running := False\<rparr>) = total_prompts s"
    by (simp add: total_prompts_def prompts_def)
  show ?thesis
    using rebuild_not_running [of "s\<lparr>running := False\<rparr>" N]
    by (simp add: w t rebuild_def)
qed

lemma provider_work [simp]: "provider (work N c out s) = provider s"
  by (simp add: work_def work_settle_def split: dispatch.splits)

lemma worker_run_Call:
  assumes "settled_upto k s" "k < total_prompts s" "registered (provider s)"
  shows "worker_run N (out # rest) s = worker_run N rest (work N False out s)"
proof -
  have "work_dispatch s = Call (provider s) (prompts s ! k) (key s)"
    using assms by (auto simp: settled_upto_def work_dispatch_def)
  then show ?thesis by (subst worker_run.simps) simp
qed

text \<open>
  Hence every full run of a registered provider over a freshly built list, whatever the
  outcomes of its engine calls, ends stopped with the cursor at 0 and every record
  pending.
\<close>

lemma full_run_resets:
  assumes "settled_upto k s" "registered (provider s)"
    "length outs = total_prompts s - k" "k \<le> total_prompts s"
  shows "queueIndex (worker_run N outs s) = 0 \<and>
         map status (results (worker_run N outs s)) = replicate (total_prompts s) pending \<and>
         \<not> running (worker_run N outs s)"
  using assms
proof (induction outs arbitrary: k s)
  case Nil
  then have "settled_upto (total_prompts s) s" by simp
  then show ?case by (rule completion_resets)
next
  case (Cons out outs)
  then have k: "k < total_prompts s" by simp
  have step: "settled_upto (Suc k) (work N False out s)"
    using Cons.prems(1) k by (rule work_step_settled)
  have "queueIndex (worker_run N outs (work N False out s)) = 0 \<and>
        map status (results (worker_run N outs (work N False out s)))
          = replicate (total_prompts (work N False out s)) pending \<and>
        \<not> running (worker_run N outs (work N False out s))"
  proof (rule Cons.IH [OF step])
    show "registered (provider (work N False out s))" using Cons.prems(2) by simp
    show "length outs = total_prompts (work N False out s) - Suc k"
      using Cons.prems(3) by simp
    show "Suc k \<le> total_prompts (work N False out s)" using k by simp
  qed
  then show ?case
    using worker_run_Call [OF Cons.prems(1) k Cons.prems(2)] by simp
qed

lemma started_settled:
  assumes "loggedIn s" "\<not> running s" "prompts s \<noteq> []" "length (results s) = total_prompts s"
  shows "settled_upto 0 (act N start s)"
  using assms
  by (simp add: act_def rebuild_effect_def rebuild_def start_def settled_upto_def
        total_prompts_def prompts_def)

text \<open>
  Claim C1 says that after the worker has run to completion over \<open>N\<close> prompts the final
  state has the cursor at \<open>N\<close> and every record \<^verbatim>\<open>ok\<close> or \<^verbatim>\<open>fail\<close>.  On the one prompt
  \<^verbatim>\<open>cat\<close>, with an engine that resolves: after the dispatch the cursor is 1, which is
  the number of prompts, and the record is \<^verbatim>\<open>ok\<close>; the run then completes, and in its
  final state the worker is stopped, the cursor is 0 and the record is \<^verbatim>\<open>pending\<close>
  again.  (\<open>dispatch_phase_settled\<close> and \<open>full_run_resets\<close> say the same of every run.)
\<close>

theorem C1_full_run_resets:
  "total_prompts (started N cat_prompt) = 1 \<and>
   queueIndex (work N False (Inr a_data_url) (started N cat_prompt)) = 1 \<and>
   map status (results (work N False (Inr a_data_url) (started N cat_prompt))) = [ok] \<and>
   \<not> running (worker_run N [Inr a_data_url] (started N cat_prompt)) \<and>
   queueIndex (worker_run N [Inr a_data_url] (started N cat_prompt)) = 0 \<and>
   map status (results (worker_run N [Inr a_data_url] (started N cat_prompt))) = [pending] \<and>
   map dataUrl (results (worker_run N [Inr a_data_url] (started N cat_prompt))) = [None]"
  by (simp add: session_defs run_defs worker_run.simps)

theorem C1_full_run_resets_witness:
  "queueIndex (worker_run (\<lambda>t. t) [Inr a_data_url] (started (\<lambda>t. t) cat_prompt)) = 0 \<and>
   map status (results (worker_run (\<lambda>t. t) [Inr a_data_url] (started (\<lambda>t. t) cat_prompt)))
     = [pending]"
  using C1_full_run_resets [of "\<lambda>t. t"] by simp

section \<open>Stop and clear\<close>

lemma stop_alone:
  "stop s = s\<lparr>running := False, paused := False\<rparr> \<and> results (stop s) = results s \<and>
   queueIndex (stop s) = queueIndex s \<and> promptText (stop s) = promptText s"
  by (simp add: stop_def)

lemma act_stop_running:
  "running s \<Longrightarrow> act N stop s = rebuild N (s\<lparr>running := False, paused := False\<rparr>)"
  by (simp add: act_def rebuild_effect_def stop_def)

lemma act_stop_not_running:
  "\<not> running s \<Longrightarrow> act N stop s = s\<lparr>running := False, paused := False\<rparr>"
  by (simp add: act_def rebuild_effect_def stop_def)

lemma stop_running_resets:
  assumes "running s"
  shows "queueIndex (act N stop s) = 0 \<and>
         map status (results (act N stop s)) = replicate (total_prompts s) pending \<and>
         map dataUrl (results (act N stop s)) = replicate (total_prompts s) None"
proof -
  have t: "total_prompts (s\<lparr>running := False, paused := False\<rparr>) = total_prompts s"
    by (simp add: total_prompts_def prompts_def)
  show ?thesis
    using rebuild_not_running [of "s\<lparr>running := False, paused := False\<rparr>" N] assms
    by (simp add: act_stop_running t)
qed

lemma clearAll_resets:
  "promptText (act N clearAll s) = [] \<and> results (act N clearAll s) = [] \<and>
   queueIndex (act N clearAll s) = 0 \<and> \<not> running (act N clearAll s) \<and>
   \<not> paused (act N clearAll s)"
  by (simp add: act_def rebuild_effect_def rebuild_def clearAll_def prompts_empty_text)

text \<open>
  Claim C2 says that stopping leaves every record's status, data URL and error and the
  cursor as they are, and that clearing empties the text and the items and resets the
  cursor.  Clearing does (\<open>clearAll_resets\<close>), and the function \<^verbatim>\<open>stop\<close> by itself
  writes \<^verbatim>\<open>running\<close> and \<^verbatim>\<open>paused\<close> only (\<open>stop_alone\<close>).  But stopping a run changes
  \<^verbatim>\<open>running\<close>, so the rebuild effect runs in the render that follows: in the run over
  \<^verbatim>\<open>cat\<close> and \<^verbatim>\<open>dog\<close>, stopped after the first image has arrived, the first record
  loses its status and its data URL and the cursor returns from 1 to 0.
\<close>

theorem C2_stop_resets:
  "map status (results (mid_run N)) = [ok, pending] \<and>
   map dataUrl (results (mid_run N)) = [Some a_data_url, None] \<and>
   queueIndex (mid_run N) = 1 \<and> running (mid_run N) \<and>
   results (stop (mid_run N)) = results (mid_run N) \<and>
   queueIndex (stop (mid_run N)) = 1 \<and>
   map status (results (act N stop (mid_run N))) = [pending, pending] \<and>
   map dataUrl (results (act N stop (mid_run N))) = [None, None] \<and>
   queueIndex (act N stop (mid_run N)) = 0 \<and>
   promptText (act N clearAll (mid_run N)) = [] \<and>
   results (act N clearAll (mid_run N)) = [] \<and>
   queueIndex (act N clearAll (mid_run N)) = 0"
  by (simp add: session_defs run_defs)

theorem C2_stop_resets_witness:
  "map status (results (mid_run (\<lambda>t. t))) = [ok, pending] \<and>
   map status (results (act (\<lambda>t. t) stop (mid_run (\<lambda>t. t)))) = [pending, pending] \<and>
   queueIndex (act (\<lambda>t. t) stop (mid_run (\<lambda>t. t))) = 0"
  using C2_stop_resets [of "\<lambda>t. t"] by simp

section \<open>Start\<close>

text \<open>
  Claim C6 says that \<^verbatim>\<open>start\<close> changes no field of the queue but \<^verbatim>\<open>running\<close> and
  \<^verbatim>\<open>paused\<close>, and so leaves the cursor unchanged.  \<^verbatim>\<open>start\<close> calls
  \<^verbatim>\<open>setQueueIndex(0)\<close>: pressed while the run over \<^verbatim>\<open>cat\<close> and \<^verbatim>\<open>dog\<close> has its cursor
  at 1, it moves the cursor back to 0.
\<close>

theorem C6_counterexample:
  "queueIndex cursor_at_dog = 1 \<and> queueIndex (start cursor_at_dog) = 0 \<and>
   queueIndex (start cursor_at_dog) \<noteq> queueIndex cursor_at_dog"
  by (simp add: session_defs cursor_at_dog_def start_def prompts_def trim_def js_space_def ustr_def)

text \<open>
  Claim C6, amended.  \<^verbatim>\<open>start\<close> never rebuilds the item list, and the render after it
  does not either: the records, the text, the provider and the key stay as they are.
  When the user is logged in and there is a prompt, it sets the cursor to 0,
  \<^verbatim>\<open>running\<close> to true and \<^verbatim>\<open>paused\<close> to false and nothing else; with no prompt it
  changes nothing; without login it opens the login dialog and changes nothing else.
\<close>

theorem C6_start_effect:
  "act N start s = start s \<and>
   results (start s) = results s \<and> promptText (start s) = promptText s \<and>
   provider (start s) = provider s \<and> key (start s) = key s \<and>
   (loggedIn s \<and> prompts s \<noteq> [] \<longrightarrow>
      start s = s\<lparr>queueIndex := 0, running := True, paused := False\<rparr>) \<and>
   (loggedIn s \<and> prompts s = [] \<longrightarrow> start s = s) \<and>
   (\<not> loggedIn s \<longrightarrow> start s = s\<lparr>loginOpen := True\<rparr>)"
  by (simp add: act_def rebuild_effect_def rebuild_def start_def)

theorem C6_start_effect_witness:
  "loggedIn cursor_at_dog \<and> prompts cursor_at_dog \<noteq> [] \<and>
   start cursor_at_dog = cursor_at_dog\<lparr>queueIndex := 0, running := True, paused := False\<rparr> \<and>
   results (start cursor_at_dog) = results cursor_at_dog"
proof -
  have h: "loggedIn cursor_at_dog \<and> prompts cursor_at_dog \<noteq> []"
    by (simp add: session_defs cursor_at_dog_def prompts_def trim_def js_space_def ustr_def)
  show ?thesis using h C6_start_effect [of _ cursor_at_dog] by blast
qed

section \<open>One dispatch\<close>





section \<open>A provider without an engine\<close>

text \<open>
  The provider state is written in two places.  Every copy of the component creates it
  as \<^verbatim>\<open>useState(PROVIDERS[0])\<close>.  \<^verbatim>\<open>app/page.jsx\<close> never calls \<^verbatim>\<open>setProvider\<close>; the
  sibling copies call it from a \<^verbatim>\<open>select\<close> whose options are the entries of \<^verbatim>\<open>PROVIDERS\<close>:
  \<^verbatim>\<open>
  <select value={provider} onChange={(e) => setProvider(e.target.value)}>
    {PROVIDERS.map(p => <option key={p} value={p}>{p}</option>)}
  </select>
  \<close>
  \<open>session s\<close> says that the component can be in the state \<open>s\<close> as far as the provider
  is concerned: \<open>s\<close> is a state at mount, or comes from such a state by choices in the
  \<^verbatim>\<open>select\<close> and by steps that do not write the provider.  The handlers and effects of
  the component are steps of the last kind (\<open>provider_kept\<close> below).
\<close>

definition setProvider :: "ustring \<Rightarrow> app \<Rightarrow> app" where
  "setProvider p s = s\<lparr>provider := p\<rparr>"

inductive session :: "app \<Rightarrow> bool" where
  mount: "provider s = PROVIDERS ! 0 \<Longrightarrow> session s"
| choose: "session s \<Longrightarrow> p \<in> set PROVIDERS \<Longrightarrow> session (setProvider p s)"
| step: "session s \<Longrightarrow> provider t = provider s \<Longrightarrow> session t"



lemma session_provider: "session s \<Longrightarrow> provider s \<in> set PROVIDERS"
  by (induction rule: session.induct) (simp_all add: setProvider_def PROVIDERS_def)






text \<open>
  The state with the provider \<^verbatim>\<open>Midjourney\<close> is none that the component can be in.  It
  shows what the test in the sibling \<^verbatim>\<open>start\<close> is for: from that state \<^verbatim>\<open>start\<close> of
  \<^verbatim>\<open>app/page.jsx\<close> would set \<^verbatim>\<open>running\<close>, and the worker, calling \<^verbatim>\<open>undefined\<close>, would
  catch the \<^verbatim>\<open>TypeError\<close> and record it on the item at the cursor.
\<close>

lemma start_outside_sessions:
  "\<not> session (idle\<lparr>provider := midjourney\<rparr>) \<and>
   \<not> session (unknown_started (\<lambda>t. t)) \<and>
   running (unknown_started (\<lambda>t. t)) \<and>
   work_dispatch (unknown_started (\<lambda>t. t)) = No_engine \<and>
   map status (results (work (\<lambda>t. t) False (Inr a_data_url) (unknown_started (\<lambda>t. t))))
     = [fail] \<and>
   map error (results (work (\<lambda>t. t) False (Inr a_data_url) (unknown_started (\<lambda>t. t))))
     = [Some not_a_function] \<and>
   queueIndex (work (\<lambda>t. t) False (Inr a_data_url) (unknown_started (\<lambda>t. t))) = 1"
proof -
  have a: "provider (idle\<lparr>provider := midjourney\<rparr>) \<notin> set PROVIDERS"
          "provider (unknown_started (\<lambda>t. t)) \<notin> set PROVIDERS"
    by (simp_all add: session_defs unknown_started_def midjourney_def PROVIDERS_def run_defs)
  have b: "\<not> session (idle\<lparr>provider := midjourney\<rparr>)" "\<not> session (unknown_started (\<lambda>t. t))"
    using a session_provider by blast+
  have c: "running (unknown_started (\<lambda>t. t)) \<and>
   work_dispatch (unknown_started (\<lambda>t. t)) = No_engine \<and>
   map status (results (work (\<lambda>t. t) False (Inr a_data_url) (unknown_started (\<lambda>t. t))))
     = [fail] \<and>
   map error (results (work (\<lambda>t. t) False (Inr a_data_url) (unknown_started (\<lambda>t. t))))
     = [Some not_a_function] \<and>
   queueIndex (work (\<lambda>t. t) False (Inr a_data_url) (unknown_started (\<lambda>t. t))) = 1"
    by (simp add: session_defs unknown_started_def midjourney_def engine_found_def run_defs)
  show ?thesis using b c by simp
qed

section \<open>Retrying one item\<close>

text \<open>
  Claim C10.  \<^verbatim>\<open>regenerateOne\<close> does not look at the status of the record.  For every
  index with a record, whatever its status, the record is first made \<^verbatim>\<open>pending\<close> with
  its error removed, the engine of the active provider is called with the prompt of the
  record and the key, and the record ends \<^verbatim>\<open>ok\<close> when the call resolves and \<^verbatim>\<open>fail\<close>
  when it rejects (or when the provider has no engine to call); no other record and not
  the cursor changes.  For an index with no record nothing is called and the state is
  unchanged.
\<close>

theorem C10_regenerate_any_status:
  "(idx < length (results s) \<longrightarrow>
      (\<exists>s1 s2.
         regenerateOne s idx out =
           (s1, if registered (provider s)
                then Some (provider s, prompt (results s ! idx), key s) else None, s2) \<and>
         results s1 = (results s)[idx := (results s ! idx)\<lparr>status := pending, error := None\<rparr>] \<and>
         status (results s1 ! idx) = pending \<and>
         length (results s2) = length (results s) \<and>
         status (results s2 ! idx) =
           (if registered (provider s) then (case out of Inr url \<Rightarrow> ok | Inl msg \<Rightarrow> fail)
            else fail) \<and>
         (status (results s2 ! idx) = ok \<or> status (results s2 ! idx) = fail) \<and>
         (\<forall>j < length (results s). j \<noteq> idx \<longrightarrow> results s2 ! j = results s ! j) \<and>
         queueIndex s1 = queueIndex s \<and> queueIndex s2 = queueIndex s)) \<and>
   (length (results s) \<le> idx \<longrightarrow> regenerateOne s idx out = (s, None, s))"
proof (cases "idx < length (results s)")
  case False
  then show ?thesis by (simp add: regenerateOne_def regenerate_begin_def item_at_def)
next
  case True
  let ?s1 = "s\<lparr>results := (results s)[idx := (results s ! idx)\<lparr>status := pending, error := None\<rparr>]\<rparr>"
  have b: "regenerate_begin s idx =
     Some (?s1, if registered (provider s)
                then Some (provider s, prompt (results s ! idx), key s) else None)"
    using True by (simp add: regenerate_begin_def item_at_def map_index_at)
  show ?thesis
  proof (cases "registered (provider s)")
    case r: True
    have "regenerateOne s idx out = (?s1, Some (provider s, prompt (results s ! idx), key s),
            regenerate_settle idx out ?s1)"
      using b r by (simp add: regenerateOne_def)
    then show ?thesis using True r
      by (auto simp: regenerate_settle_def map_index_at nth_list_update split: sum.splits)
  next
    case r: False
    have "regenerateOne s idx out = (?s1, None, regenerate_settle idx (Inl not_a_function) ?s1)"
      using b r by (simp add: regenerateOne_def)
    then show ?thesis using True r
      by (auto simp: regenerate_settle_def map_index_at nth_list_update)
  qed
qed

theorem C10_regenerate_any_status_witness:
  "(0::nat) < length (results cat_done) \<and> status (results cat_done ! 0) = ok \<and>
   (\<exists>s1 s2. regenerateOne cat_done 0 (Inl generation_failed) =
       (s1, Some (ustr ''Gemini'', cat_prompt, ustr ''k''), s2) \<and>
      status (results s1 ! 0) = pending \<and> status (results s2 ! 0) = fail) \<and>
   length (results cat_done) \<le> (1::nat) \<and>
   regenerateOne cat_done 1 (Inl generation_failed) = (cat_done, None, cat_done)"
proof -
  have h: "(0::nat) < length (results cat_done)" "length (results cat_done) \<le> (1::nat)"
          "registered (provider cat_done)" "status (results cat_done ! 0) = ok"
          "provider cat_done = ustr ''Gemini''" "prompt (results cat_done ! 0) = cat_prompt"
          "key cat_done = ustr ''k''"
    by (simp_all add: cat_done_def registered_def providerEngines_def)
  from h C10_regenerate_any_status [of 0 cat_done "Inl generation_failed"]
  have "\<exists>s1 s2. regenerateOne cat_done 0 (Inl generation_failed) =
       (s1, Some (ustr ''Gemini'', cat_prompt, ustr ''k''), s2) \<and>
      status (results s1 ! 0) = pending \<and> status (results s2 ! 0) = fail"
    by auto
  moreover from h C10_regenerate_any_status [of 1 cat_done "Inl generation_failed"]
  have "regenerateOne cat_done 1 (Inl generation_failed) = (cat_done, None, cat_done)"
    by blast
  ultimately show ?thesis using h by simp
qed

section \<open>The proxy route\<close>

text \<open>
  \<^verbatim>\<open>app/api/gen/route.js\<close> (its first document) exports the handler \<^verbatim>\<open>POST\<close>.  The
  values it handles are what \<^verbatim>\<open>JSON.parse\<close> returns.  Of a number the handler only
  tests whether it is zero and prints it: \<open>JNum t\<close> is the number that JavaScript prints
  as \<open>t\<close>, and zero is the number printed \<^verbatim>\<open>0\<close>.  \<open>JObj\<close> holds the own properties of a
  parsed object, each key once.
\<close>

datatype json =
    JNull
  | JBool bool
  | JNum ustring
  | JStr ustring
  | JArr "json list"
  | JObj "(ustring \<times> json) list"

text \<open>
  A value that may be \<^verbatim>\<open>undefined\<close> is a \<open>json option\<close>.  \<open>truthy\<close> is \<^verbatim>\<open>ToBoolean\<close>,
  \<open>js_get k v\<close> is \<^verbatim>\<open>v?.k\<close> for the property names the handler reads (none of them is
  inherited by an object, string, array, number or boolean), \<open>js_first v\<close> is
  \<^verbatim>\<open>v?.[0]\<close> (the same as \<^verbatim>\<open>v[0]\<close> when \<open>v\<close> is truthy), \<open>or_else\<close> is \<^verbatim>\<open>||\<close> and
  \<open>and_then\<close> is \<^verbatim>\<open>&&\<close>.
\<close>

definition truthy :: "json option \<Rightarrow> bool" where
  "truthy v =
     (case v of
        None \<Rightarrow> False
      | Some JNull \<Rightarrow> False
      | Some (JBool b) \<Rightarrow> b
      | Some (JNum t) \<Rightarrow> t \<noteq> ustr ''0''
      | Some (JStr s) \<Rightarrow> s \<noteq> []
      | Some (JArr xs) \<Rightarrow> True
      | Some (JObj kvs) \<Rightarrow> True)"

definition js_get :: "ustring \<Rightarrow> json option \<Rightarrow> json option" where
  "js_get k v = (case v of Some (JObj kvs) \<Rightarrow> map_of kvs k | _ \<Rightarrow> None)"


definition or_else :: "json option \<Rightarrow> json option \<Rightarrow> json option" where
  "or_else a b = (if truthy a then a else b)"






datatype raw = No_raw | Raw_text ustring | Raw_json json

datatype thrown = Status_out_of_range nat | Null_body_status nat | Not_convertible

datatype error_text = Said json | Message_of thrown

datatype payload = Error_body error_text raw | Data_body ustring

datatype reply = Reply nat payload


text \<open>The \<^verbatim>\<open>catch\<close> block: \<^verbatim>\<open>{ error: err?.message || "Server Error" }\<close> with status 500.\<close>

definition server_error :: "ustring \<Rightarrow> reply" where
  "server_error m =
     Reply 500 (Error_body (Said (JStr (if m = [] then ustr ''Server Error'' else m))) No_raw)"

definition runtime_error :: "thrown \<Rightarrow> reply" where
  "runtime_error e = Reply 500 (Error_body (Message_of e) No_raw)"








subsection \<open>The payload locations\<close>

lemma truthy_None [simp]: "\<not> truthy None"
  by (simp add: truthy_def)

lemma js_get_None [simp]: "js_get k None = None"
  by (simp add: js_get_def)











lemma or_else_cases:
  "truthy (or_else p q) \<Longrightarrow> (truthy p \<and> or_else p q = p) \<or> (\<not> truthy p \<and> truthy q \<and> or_else p q = q)"
  by (auto simp: or_else_def)



subsection \<open>The replies\<close>

fun reply_status :: "reply \<Rightarrow> nat" where
  "reply_status (Reply st p) = st"

fun is_error :: "reply \<Rightarrow> bool" where
  "is_error (Reply st (Error_body e r)) = True"
| "is_error (Reply st (Data_body u)) = False"




lemma server_error_status [simp]:
  "reply_status (server_error m) = 500" "is_error (server_error m)"
  "reply_status (runtime_error e) = 500" "is_error (runtime_error e)"
  by (simp_all add: server_error_def runtime_error_def)














end
